theory Spec2Isabelle
  imports Main "HOL-Library.Sublist"
begin

section \<open>Strings and regular expressions of the sources\<close>

text \<open>
  JavaScript strings are modelled as \<^typ>\<open>string\<close>, one \<^typ>\<open>char\<close> per code unit; the
  development covers the 8-bit fragment, which holds every protocol command and every
  backup the sources write for ASCII data.
\<close>

definition is_digit :: "char \<Rightarrow> bool" where
  \<comment> \<open>the class \<open>\d\<close> (no unicode flag), also \<open>[0-9]\<close>\<close>
  "is_digit c = (c \<in> set ''0123456789'')"

definition is_upper :: "char \<Rightarrow> bool" where
  \<comment> \<open>the class \<open>[A-Z]\<close>\<close>
  "is_upper c = (c \<in> set ''ABCDEFGHIJKLMNOPQRSTUVWXYZ'')"

fun includes_js :: "string \<Rightarrow> string \<Rightarrow> bool" where
  \<comment> \<open>\<open>s.includes(sub)\<close>\<close>
  "includes_js [] sub = (sub = [])"
| "includes_js (c # cs) sub = (prefix sub (c # cs) \<or> includes_js cs sub)"

text \<open>
  A regular expression is modelled by its matcher at a fixed start: the length of the
  match that begins at the head of the text, if there is one. Every expression of the
  sources is deterministic (each greedy repetition is followed by a character outside
  the repeated class), so backtracking never finds a second candidate.
\<close>

type_synonym regex = "string \<Rightarrow> nat option"

fun regex_search :: "regex \<Rightarrow> string \<Rightarrow> (string \<times> string \<times> string) option" where
  \<comment> \<open>leftmost match: the text before it, the match, the text after it\<close>
  "regex_search m [] = (case m [] of Some n \<Rightarrow> Some ([], [], []) | None \<Rightarrow> None)"
| "regex_search m (c # cs) =
     (case m (c # cs) of
        Some n \<Rightarrow> Some ([], take n (c # cs), drop n (c # cs))
      | None \<Rightarrow> map_option (\<lambda>(b, x, a). (c # b, x, a)) (regex_search m cs))"

fun GetSubstitution :: "string \<Rightarrow> string \<Rightarrow> string \<Rightarrow> string \<Rightarrow> string" where
  \<comment> \<open>expansion of a replacement template for a pattern without capture groups:
      \<open>$$\<close>, \<open>$&\<close> (the match), \<open>$`\<close> (the text before), \<open>$'\<close> (the text after)\<close>
  "GetSubstitution matched pre post [] = []"
| "GetSubstitution matched pre post [c] = [c]"
| "GetSubstitution matched pre post (c # d # r) =
     (if c = CHR ''$'' \<and> d = CHR ''$'' then CHR ''$'' # GetSubstitution matched pre post r
      else if c = CHR ''$'' \<and> d = CHR ''&'' then matched @ GetSubstitution matched pre post r
      else if c = CHR ''$'' \<and> d = CHR 0x60 then pre @ GetSubstitution matched pre post r
      else if c = CHR ''$'' \<and> d = CHR 0x27 then post @ GetSubstitution matched pre post r
      else c # GetSubstitution matched pre post (d # r))"

definition js_replace :: "regex \<Rightarrow> string \<Rightarrow> string \<Rightarrow> string" where
  \<comment> \<open>\<open>s.replace(re, template)\<close> for a pattern without the global flag\<close>
  "js_replace m template s =
     (case regex_search m s of
        None \<Rightarrow> s
      | Some (b, x, a) \<Rightarrow> b @ GetSubstitution x b a template @ a)"

definition js_match :: "regex \<Rightarrow> string \<Rightarrow> bool" where
  \<comment> \<open>truthiness of \<open>s.match(re)\<close>\<close>
  "js_match m s = (regex_search m s \<noteq> None)"

section \<open>Command classifier and audit logger (DataStoreContext, logSMSOperation)\<close>

fun re_masked :: regex where
  \<comment> \<open>\<open>/\d{4}[A-Z]/\<close>\<close>
  "re_masked (a # b # c # d # e # r) =
     (if is_digit a \<and> is_digit b \<and> is_digit c \<and> is_digit d \<and> is_upper e then Some 5 else None)"
| "re_masked r = None"

fun re_GOT :: regex where
  \<comment> \<open>\<open>/GOT(\d{3})/\<close>\<close>
  "re_GOT (x # y # z # a # b # c # r) =
     (if x = CHR ''G'' \<and> y = CHR ''O'' \<and> z = CHR ''T'' \<and> is_digit a \<and> is_digit b \<and> is_digit c
      then Some 6 else None)"
| "re_GOT r = None"

fun re_password_change :: regex where
  \<comment> \<open>\<open>/P\d{4}\d{4}#/\<close>\<close>
  "re_password_change (p # a # b # c # d # e # f # g # h # x # r) =
     (if p = CHR ''P'' \<and> list_all is_digit [a, b, c, d, e, f, g, h] \<and> x = CHR ''#''
      then Some 10 else None)"
| "re_password_change r = None"

fun re_add_user :: regex where
  \<comment> \<open>\<open>/A\d{3}#[^#]+#/\<close>\<close>
  "re_add_user (a # b # c # d # h # r) =
     (if a = CHR ''A'' \<and> is_digit b \<and> is_digit c \<and> is_digit d \<and> h = CHR ''#''
      then (let field = takeWhile (\<lambda>x. x \<noteq> CHR ''#'') r
            in if field \<noteq> [] \<and> drop (length field) r \<noteq> [] then Some (length field + 6) else None)
      else None)"
| "re_add_user r = None"

fun re_remove_user :: regex where
  \<comment> \<open>\<open>/A\d{3}##/\<close>\<close>
  "re_remove_user (a # b # c # d # h # i # r) =
     (if a = CHR ''A'' \<and> is_digit b \<and> is_digit c \<and> is_digit d \<and> h = CHR ''#'' \<and> i = CHR ''#''
      then Some 6 else None)"
| "re_remove_user r = None"

datatype category = Relay | Settings | User | System

text \<open>The arguments \<open>logSMSOperation\<close> hands to \<open>dataStore.addDeviceLog\<close>.\<close>

record addDeviceLog_call =
  deviceId :: string
  action :: string
  details :: string
  success :: bool
  category :: category

definition maskedCommand :: "string \<Rightarrow> string" where
  \<comment> \<open>\<open>command.replace(/\d{4}[A-Z]/, '****$&'.slice(4))\<close>\<close>
  "maskedCommand command = js_replace re_masked (drop 4 ''****$&'') command"

definition GOT_time :: "string \<Rightarrow> string" where
  \<comment> \<open>\<open>command.match(/GOT(\d{3})/)?.[1] || 'unknown'\<close>\<close>
  "GOT_time command =
     (case regex_search re_GOT command of
        Some (b, x, a) \<Rightarrow> drop 3 x
      | None \<Rightarrow> ''unknown'')"

definition logSMSOperation :: "string \<Rightarrow> string \<Rightarrow> bool \<Rightarrow> addDeviceLog_call" where
  "logSMSOperation dev command ok =
     (if includes_js command ''CC'' then
        \<lparr>deviceId = dev, action = ''Gate Open Command'',
         details = ''Sent command to activate relay (open gate): '' @ maskedCommand command,
         success = ok, category = Relay\<rparr>
      else if includes_js command ''DD'' then
        \<lparr>deviceId = dev, action = ''Gate Close Command'',
         details = ''Sent command to deactivate relay (close gate): '' @ maskedCommand command,
         success = ok, category = Relay\<rparr>
      else if includes_js command ''GOT'' then
        \<lparr>deviceId = dev, action = ''Relay Timing Setting'',
         details = ''Set relay timing to ''
           @ (if GOT_time command = ''000'' then ''toggle mode'' else GOT_time command @ '' seconds'')
           @ '': '' @ maskedCommand command,
         success = ok, category = Settings\<rparr>
      else if includes_js command ''ALL'' then
        \<lparr>deviceId = dev, action = ''Access Control Setting'',
         details = ''Set access mode to '' @ [CHR 0x22] @ ''Allow All'' @ [CHR 0x22]
           @ '' (any caller with password): '' @ maskedCommand command,
         success = ok, category = Settings\<rparr>
      else if includes_js command ''AUT'' then
        \<lparr>deviceId = dev, action = ''Access Control Setting'',
         details = ''Set access mode to '' @ [CHR 0x22] @ ''Authorized Only'' @ [CHR 0x22]
           @ '': '' @ maskedCommand command,
         success = ok, category = Settings\<rparr>
      else if includes_js command ''TEL'' then
        \<lparr>deviceId = dev, action = ''Admin Registration'',
         details = ''Registered administrator phone number: '' @ maskedCommand command,
         success = ok, category = Settings\<rparr>
      else if includes_js command ''EE'' then
        \<lparr>deviceId = dev, action = ''Status Check'',
         details = ''Requested device status: '' @ maskedCommand command,
         success = ok, category = System\<rparr>
      else if js_match re_password_change command then
        \<lparr>deviceId = dev, action = ''Password Change'',
         details = ''Changed device password: '' @ maskedCommand command,
         success = ok, category = Settings\<rparr>
      else if js_match re_add_user command then
        \<lparr>deviceId = dev, action = ''User Management'',
         details = ''Added authorized user: '' @ maskedCommand command,
         success = ok, category = User\<rparr>
      else if js_match re_remove_user command then
        \<lparr>deviceId = dev, action = ''User Management'',
         details = ''Removed authorized user: '' @ maskedCommand command,
         success = ok, category = User\<rparr>
      else
        \<lparr>deviceId = dev, action = ''Unknown Command'', details = command,
         success = ok, category = Relay\<rparr>)"

section \<open>JSON values, \<open>JSON.stringify\<close> and \<open>JSON.parse\<close>\<close>

text \<open>
  The values of the JSON runtime. An object is the list of its properties in insertion
  order, one per key; the runtime lists keys that are array indices first, in ascending
  order, which the model leaves out: it changes the order in which an object is written
  out and iterated, never which pairs it holds. Numbers are the integers (written
  without fraction or exponent); a number token with a fraction or an exponent is
  outside the fragment and does not parse.
\<close>

datatype json =
    JNull
  | JBool bool
  | JNumber int
  | JString string
  | JArray "json list"
  | JObject "(string \<times> json) list"

text \<open>Assignment \<open>obj[k] = v\<close>: a new key goes last, a known key keeps its place.\<close>

fun obj_set :: "string \<Rightarrow> 'v \<Rightarrow> (string \<times> 'v) list \<Rightarrow> (string \<times> 'v) list" where
  "obj_set k v [] = [(k, v)]"
| "obj_set k v ((k', v') # kvs) = (if k = k' then (k, v) # kvs else (k', v') # obj_set k v kvs)"

definition hex_digit :: "nat \<Rightarrow> char" where
  "hex_digit n = ''0123456789abcdef'' ! (n mod 16)"

text \<open>\<open>JSON.stringify\<close>: strings are quoted as the runtime's QuoteJSONString does.\<close>

definition quote_char :: "char \<Rightarrow> string" where
  "quote_char c =
     (if c = CHR 0x22 then [CHR 0x5C, CHR 0x22]
      else if c = CHR 0x5C then [CHR 0x5C, CHR 0x5C]
      else if c = CHR 0x08 then [CHR 0x5C, CHR ''b'']
      else if c = CHR 0x0C then [CHR 0x5C, CHR ''f'']
      else if c = CHR 0x0A then [CHR 0x5C, CHR ''n'']
      else if c = CHR 0x0D then [CHR 0x5C, CHR ''r'']
      else if c = CHR 0x09 then [CHR 0x5C, CHR ''t'']
      else if (of_char c :: nat) < 32
        then [CHR 0x5C, CHR ''u'', CHR ''0'', CHR ''0'', hex_digit (of_char c div 16), hex_digit (of_char c)]
      else [c])"

definition QuoteJSONString :: "string \<Rightarrow> string" where
  "QuoteJSONString s = CHR 0x22 # concat (map quote_char s) @ [CHR 0x22]"

fun digits_of_nat :: "nat \<Rightarrow> string" where
  "digits_of_nat n =
     (if n < 10 then [''0123456789'' ! n] else digits_of_nat (n div 10) @ [''0123456789'' ! (n mod 10)])"

definition NumberToString :: "int \<Rightarrow> string" where
  "NumberToString i = (if i < 0 then CHR ''-'' # digits_of_nat (nat (- i)) else digits_of_nat (nat i))"

fun join_comma :: "string list \<Rightarrow> string" where
  "join_comma [] = []"
| "join_comma [x] = x"
| "join_comma (x # y # r) = x @ CHR '','' # join_comma (y # r)"

fun JSON_stringify :: "json \<Rightarrow> string" where
  "JSON_stringify JNull = ''null''"
| "JSON_stringify (JBool b) = (if b then ''true'' else ''false'')"
| "JSON_stringify (JNumber i) = NumberToString i"
| "JSON_stringify (JString s) = QuoteJSONString s"
| "JSON_stringify (JArray xs) = CHR ''['' # join_comma (map JSON_stringify xs) @ '']''"
| "JSON_stringify (JObject kvs) =
     CHR ''{'' # join_comma (map (\<lambda>(k, v). QuoteJSONString k @ CHR '':'' # JSON_stringify v) kvs) @ ''}''"

text \<open>
  \<open>JSON.parse\<close>, by recursive descent. The first argument of \<open>parse_value\<close> bounds the
  recursion; \<open>JSON_parse\<close> starts it above twice the length of the text, which is never
  used up (\<open>parse_not_exhausted\<close> below), so \<open>Exhausted\<close> is not a result of \<open>JSON_parse\<close>.
\<close>

definition is_json_ws :: "char \<Rightarrow> bool" where
  "is_json_ws c = (c \<in> set [CHR 0x20, CHR 0x09, CHR 0x0A, CHR 0x0D])"

definition hex_value :: "char \<Rightarrow> nat option" where
  "hex_value c =
     (if is_digit c then Some (of_char c - 48)
      else if c \<in> set ''abcdef'' then Some (of_char c - 87)
      else if c \<in> set ''ABCDEF'' then Some (of_char c - 55)
      else None)"

definition unescape :: "char \<Rightarrow> char option" where
  "unescape e =
     (if e = CHR 0x22 \<or> e = CHR 0x5C \<or> e = CHR ''/'' then Some e
      else if e = CHR ''b'' then Some (CHR 0x08)
      else if e = CHR ''f'' then Some (CHR 0x0C)
      else if e = CHR ''n'' then Some (CHR 0x0A)
      else if e = CHR ''r'' then Some (CHR 0x0D)
      else if e = CHR ''t'' then Some (CHR 0x09)
      else None)"

fun decode_escape :: "string \<Rightarrow> (char \<times> nat) option" where
  \<comment> \<open>the text after a backslash: the character it stands for and how many characters
      the escape takes (of \<open>\uXXXX\<close>, the code units up to \<open>\u00FF\<close>)\<close>
  "decode_escape [] = None"
| "decode_escape (e # r) =
     (if e = CHR ''u'' then
        (case map hex_value (take 4 r) of
           [Some a, Some b, Some c, Some d] \<Rightarrow>
             if a = 0 \<and> b = 0 then Some (char_of (16 * c + d), 5) else None
         | _ \<Rightarrow> None)
      else map_option (\<lambda>x. (x, 1)) (unescape e))"

fun parse_chars :: "string \<Rightarrow> (string \<times> string) option" where
  \<comment> \<open>the characters of a string literal after its opening quote, and the text after
      its closing quote\<close>
  "parse_chars [] = None"
| "parse_chars (c # cs) =
     (if c = CHR 0x22 then Some ([], cs)
      else if c = CHR 0x5C then
        (case decode_escape cs of
           None \<Rightarrow> None
         | Some (x, k) \<Rightarrow> map_option (\<lambda>(str, rest). (x # str, rest)) (parse_chars (drop k cs)))
      else if (of_char c :: nat) < 32 then None
      else map_option (\<lambda>(str, rest). (c # str, rest)) (parse_chars cs))"

definition nat_of_digits :: "string \<Rightarrow> nat" where
  "nat_of_digits ds = foldl (\<lambda>n d. 10 * n + (of_char d - 48)) 0 ds"

fun parse_int_part :: "string \<Rightarrow> (nat \<times> string) option" where
  \<comment> \<open>\<open>0\<close>, or a digit from 1 to 9 followed by digits\<close>
  "parse_int_part [] = None"
| "parse_int_part (c # cs) =
     (if c = CHR ''0'' then Some (0, cs)
      else if is_digit c then Some (nat_of_digits (c # takeWhile is_digit cs), dropWhile is_digit cs)
      else None)"

definition parse_number :: "string \<Rightarrow> (int \<times> string) option" where
  "parse_number s =
     (case (case s of
              [] \<Rightarrow> None
            | c # cs \<Rightarrow>
                if c = CHR ''-'' then map_option (\<lambda>(n, rest). (- int n, rest)) (parse_int_part cs)
                else map_option (\<lambda>(n, rest). (int n, rest)) (parse_int_part (c # cs))) of
        None \<Rightarrow> None
      | Some (i, rest) \<Rightarrow>
          (case rest of
             [] \<Rightarrow> Some (i, rest)
           | d # ds \<Rightarrow> if d \<in> set ''.eE'' then None else Some (i, rest)))"

datatype 'a parsed = Parsed 'a string | Failed | Exhausted

fun parse_value :: "nat \<Rightarrow> string \<Rightarrow> json parsed"
  and parse_elements :: "nat \<Rightarrow> json list \<Rightarrow> string \<Rightarrow> json parsed"
  and parse_members :: "nat \<Rightarrow> (string \<times> json) list \<Rightarrow> string \<Rightarrow> json parsed"
where
  "parse_value 0 s = Exhausted"
| "parse_value (Suc n) s =
     (case dropWhile is_json_ws s of
        [] \<Rightarrow> Failed
      | c # cs \<Rightarrow>
          if c = CHR ''{'' then
            (case dropWhile is_json_ws cs of
               [] \<Rightarrow> Failed
             | d # ds \<Rightarrow> if d = CHR ''}'' then Parsed (JObject []) ds else parse_members n [] (d # ds))
          else if c = CHR ''['' then
            (case dropWhile is_json_ws cs of
               [] \<Rightarrow> Failed
             | d # ds \<Rightarrow> if d = CHR '']'' then Parsed (JArray []) ds else parse_elements n [] (d # ds))
          else if c = CHR 0x22 then
            (case parse_chars cs of
               None \<Rightarrow> Failed
             | Some (str, rest) \<Rightarrow> Parsed (JString str) rest)
          else if prefix ''true'' (c # cs) then Parsed (JBool True) (drop 4 (c # cs))
          else if prefix ''false'' (c # cs) then Parsed (JBool False) (drop 5 (c # cs))
          else if prefix ''null'' (c # cs) then Parsed JNull (drop 4 (c # cs))
          else
            (case parse_number (c # cs) of
               None \<Rightarrow> Failed
             | Some (i, rest) \<Rightarrow> Parsed (JNumber i) rest))"
| "parse_elements 0 acc s = Exhausted"
| "parse_elements (Suc n) acc s =
     (case parse_value n s of
        Failed \<Rightarrow> Failed
      | Exhausted \<Rightarrow> Exhausted
      | Parsed v rest \<Rightarrow>
          (case dropWhile is_json_ws rest of
             [] \<Rightarrow> Failed
           | c # cs \<Rightarrow>
               if c = CHR '','' then parse_elements n (acc @ [v]) cs
               else if c = CHR '']'' then Parsed (JArray (acc @ [v])) cs
               else Failed))"
| "parse_members 0 acc s = Exhausted"
| "parse_members (Suc n) acc s =
     (case dropWhile is_json_ws s of
        [] \<Rightarrow> Failed
      | q # cs \<Rightarrow>
          if q \<noteq> CHR 0x22 then Failed
          else
            (case parse_chars cs of
               None \<Rightarrow> Failed
             | Some (k, rest) \<Rightarrow>
                 (case dropWhile is_json_ws rest of
                    [] \<Rightarrow> Failed
                  | d # ds \<Rightarrow>
                      if d \<noteq> CHR '':'' then Failed
                      else
                        (case parse_value n ds of
                           Failed \<Rightarrow> Failed
                         | Exhausted \<Rightarrow> Exhausted
                         | Parsed v rest' \<Rightarrow>
                             (case dropWhile is_json_ws rest' of
                                [] \<Rightarrow> Failed
                              | e # es \<Rightarrow>
                                  if e = CHR '','' then parse_members n (obj_set k v acc) es
                                  else if e = CHR ''}'' then Parsed (JObject (obj_set k v acc)) es
                                  else Failed)))))"

definition JSON_parse :: "string \<Rightarrow> json option" where
  "JSON_parse s =
     (case parse_value (2 * length s + 1) s of
        Parsed v rest \<Rightarrow> if dropWhile is_json_ws rest = [] then Some v else None
      | Failed \<Rightarrow> None
      | Exhausted \<Rightarrow> None)"

section \<open>Backup and restore (utils/backupRestore.ts)\<close>

definition is_space :: "char \<Rightarrow> bool" where
  \<comment> \<open>white space and line terminators of \<open>String.prototype.trim\<close> and of the class \<open>\s\<close>\<close>
  "is_space c = (c \<in> set [CHR 0x09, CHR 0x0A, CHR 0x0B, CHR 0x0C, CHR 0x0D, CHR 0x20, CHR 0xA0])"

definition trim :: "string \<Rightarrow> string" where
  "trim s = rev (dropWhile is_space (rev (dropWhile is_space s)))"

fun indexOf :: "string \<Rightarrow> string \<Rightarrow> int" where
  "indexOf [] sub = (if sub = [] then 0 else - 1)"
| "indexOf (c # cs) sub =
     (if prefix sub (c # cs) then 0
      else (let i = indexOf cs sub in if i < 0 then - 1 else i + 1))"

fun lastIndexOf :: "string \<Rightarrow> string \<Rightarrow> int" where
  "lastIndexOf [] sub = (if sub = [] then 0 else - 1)"
| "lastIndexOf (c # cs) sub =
     (let i = lastIndexOf cs sub
      in if 0 \<le> i then i + 1 else if prefix sub (c # cs) then 0 else - 1)"

definition Math_min :: "int list \<Rightarrow> int" where
  \<comment> \<open>\<open>Math.min(...xs)\<close> of a list that is not empty\<close>
  "Math_min xs = fold min (tl xs) (hd xs)"

definition locate_start :: "string \<Rightarrow> string" where
  "locate_start processedContent =
     (let jsonStartOptions =
            filter (\<lambda>pos. 0 \<le> pos)
              [indexOf processedContent [CHR ''{'', CHR 0x22],
               indexOf processedContent [CHR ''{'', CHR 0x0A, CHR 0x22],
               indexOf processedContent [CHR ''{'', CHR 0x20, CHR 0x22],
               lastIndexOf processedContent [CHR ''{'', CHR 0x22]];
          jsonStart = (if jsonStartOptions \<noteq> [] then Math_min jsonStartOptions else - 1)
      in if 0 < jsonStart then drop (nat jsonStart) processedContent else processedContent)"

fun scan_braces :: "int \<Rightarrow> nat \<Rightarrow> nat \<Rightarrow> string \<Rightarrow> nat" where
  \<comment> \<open>the loop over \<open>i\<close>: \<open>braceCount\<close>, \<open>lastValidPos\<close>, \<open>i\<close> and the characters from \<open>i\<close> on\<close>
  "scan_braces braceCount lastValidPos i [] = lastValidPos"
| "scan_braces braceCount lastValidPos i (c # cs) =
     (if c = CHR ''{'' then scan_braces (braceCount + 1) lastValidPos (i + 1) cs
      else if c = CHR ''}'' then
        scan_braces (braceCount - 1) (if braceCount - 1 = 0 then i + 1 else lastValidPos) (i + 1) cs
      else scan_braces braceCount lastValidPos (i + 1) cs)"

definition brace_depth :: "string \<Rightarrow> int" where
  \<comment> \<open>\<open>braceCount\<close> after a text: its opening braces minus its closing braces\<close>
  "brace_depth s = int (count_list s (CHR ''{'')) - int (count_list s (CHR ''}''))"

definition locate_end :: "string \<Rightarrow> string" where
  "locate_end processedContent =
     (let lastValidPos = scan_braces 0 0 0 processedContent
      in if 0 < lastValidPos \<and> lastValidPos < length processedContent
         then take lastValidPos processedContent else processedContent)"

function strip_commas_before :: "char \<Rightarrow> string \<Rightarrow> string" where
  \<comment> \<open>\<open>s.replace(/,\s*}/g, '}')\<close> for \<open>close = }\<close>, \<open>s.replace(/,\s*]/g, ']')\<close> for \<open>close = ]\<close>\<close>
  "strip_commas_before close [] = []"
| "strip_commas_before close (c # cs) =
     (if c = CHR '','' \<and> dropWhile is_space cs \<noteq> [] \<and> hd (dropWhile is_space cs) = close
      then close # strip_commas_before close (tl (dropWhile is_space cs))
      else c # strip_commas_before close cs)"
  by pat_completeness auto
termination
proof (relation "measure (\<lambda>(close, s). length s)")
  fix close :: char and c :: char and cs :: string
  have "length (tl (dropWhile is_space cs)) \<le> length cs"
    using length_dropWhile_le [of is_space cs] by simp
  then show "((close, tl (dropWhile is_space cs)), close, c # cs) \<in> measure (\<lambda>(close, s). length s)"
    by simp
qed simp_all

definition repair :: "string \<Rightarrow> string" where
  "repair processedContent =
     strip_commas_before (CHR '']'') (strip_commas_before (CHR ''}'') processedContent)"

fun string_literal_len :: "string \<Rightarrow> nat option" where
  \<comment> \<open>\<open>(?:\\.|[^"\\])*"\<close>: the length up to and with the closing quote\<close>
  "string_literal_len [] = None"
| "string_literal_len (c # cs) =
     (if c = CHR 0x22 then Some 1
      else if c = CHR 0x5C then
        (case cs of
           [] \<Rightarrow> None
         | e # r \<Rightarrow> if e = CHR 0x0A \<or> e = CHR 0x0D then None
                    else map_option (\<lambda>n. n + 2) (string_literal_len r))
      else map_option Suc (string_literal_len cs))"

definition value_len :: "string \<Rightarrow> nat option" where
  \<comment> \<open>\<open>"(?:\\.|[^"\\])*"|[0-9]+|true|false|null|\{[^}]*\}|\[[^\]]*\]\<close>\<close>
  "value_len s =
     (case s of
        [] \<Rightarrow> None
      | c # cs \<Rightarrow>
          if c = CHR 0x22 then map_option Suc (string_literal_len cs)
          else if is_digit c then Some (length (takeWhile is_digit s))
          else if prefix ''true'' s then Some 4
          else if prefix ''false'' s then Some 5
          else if prefix ''null'' s then Some 4
          else if c = CHR ''{'' then
            (if dropWhile (\<lambda>x. x \<noteq> CHR ''}'') cs = [] then None
             else Some (length (takeWhile (\<lambda>x. x \<noteq> CHR ''}'') cs) + 2))
          else if c = CHR ''['' then
            (if dropWhile (\<lambda>x. x \<noteq> CHR '']'') cs = [] then None
             else Some (length (takeWhile (\<lambda>x. x \<noteq> CHR '']'') cs) + 2))
          else None)"

definition keyValueRegex :: "string \<Rightarrow> (string \<times> string \<times> nat) option" where
  \<comment> \<open>\<open>/"([^"]+)"\s*:\s*(...)/\<close> at the head of the text: group 1, group 2 and the length
      of the match\<close>
  "keyValueRegex s =
     (case s of
        [] \<Rightarrow> None
      | q # r \<Rightarrow>
          if q \<noteq> CHR 0x22 then None
          else
            (let key = takeWhile (\<lambda>x. x \<noteq> CHR 0x22) r;
                 r1 = drop (length key) r
             in if key = [] \<or> r1 = [] then None
                else
                  (let r2 = dropWhile is_space (tl r1)
                   in if r2 = [] \<or> hd r2 \<noteq> CHR '':'' then None
                      else
                        (let r3 = dropWhile is_space (tl r2)
                         in case value_len r3 of
                              None \<Rightarrow> None
                            | Some n \<Rightarrow> Some (key, take n r3, length s - length r3 + n)))))"

fun extract_pairs :: "(string \<times> json) list \<Rightarrow> string \<Rightarrow> (string \<times> json) list" where
  \<comment> \<open>the \<open>while ((match = keyValueRegex.exec(processedContent)) !== null)\<close> loop:
      \<open>extractedData\<close> so far and the text from \<open>lastIndex\<close> on\<close>
  "extract_pairs extractedData [] = extractedData"
| "extract_pairs extractedData (c # cs) =
     (case keyValueRegex (c # cs) of
        None \<Rightarrow> extract_pairs extractedData cs
      | Some (key, val, n) \<Rightarrow>
          extract_pairs
            (case JSON_parse val of
               Some j \<Rightarrow> obj_set key j extractedData
             | None \<Rightarrow> extractedData)
            (drop (n - 1) cs))"

datatype error =
    EmptyBackupError          \<comment> \<open>\<open>Backup file appears to be empty\<close>\<close>
  | MalformedBackupError      \<comment> \<open>\<open>Could not parse backup file - invalid JSON format\<close>\<close>
  | UnsupportedFormatError    \<comment> \<open>\<open>Unsupported backup format\<close>\<close>
  | NoDataError               \<comment> \<open>\<open>Backup contains no data to restore\<close>\<close>
  | RestoreFailedError        \<comment> \<open>\<open>Failed to restore any items\<close>\<close>
  | TypeError                 \<comment> \<open>thrown by \<open>Object.entries(null)\<close>\<close>
  | StorageIOError            \<comment> \<open>thrown by the store backend\<close>

definition parse_backup :: "string \<Rightarrow> error + json" where
  \<comment> \<open>the parse step: strict parse, repair, key extraction\<close>
  "parse_backup processedContent =
     (case JSON_parse processedContent of
        Some parsedData \<Rightarrow> Inr parsedData
      | None \<Rightarrow>
          (case JSON_parse (repair processedContent) of
             Some parsedData \<Rightarrow> Inr parsedData
           | None \<Rightarrow>
               (let extractedData = extract_pairs [] processedContent
                in if 0 < length extractedData then Inr (JObject extractedData)
                   else Inl MalformedBackupError)))"

definition truthy :: "json \<Rightarrow> bool" where
  "truthy j =
     (case j of
        JNull \<Rightarrow> False
      | JBool b \<Rightarrow> b
      | JNumber i \<Rightarrow> i \<noteq> 0
      | JString s \<Rightarrow> s \<noteq> []
      | JArray xs \<Rightarrow> True
      | JObject kvs \<Rightarrow> True)"

definition typeof_object :: "json \<Rightarrow> bool" where
  \<comment> \<open>\<open>typeof j === 'object'\<close>\<close>
  "typeof_object j = (case j of JNull \<Rightarrow> True | JArray xs \<Rightarrow> True | JObject kvs \<Rightarrow> True | _ \<Rightarrow> False)"

definition isArray :: "json \<Rightarrow> bool" where
  "isArray j = (case j of JArray xs \<Rightarrow> True | _ \<Rightarrow> False)"

definition get_data :: "json \<Rightarrow> json option" where
  \<comment> \<open>\<open>parsedData.data\<close>; \<open>None\<close> is \<open>undefined\<close>\<close>
  "get_data j = (case j of JObject kvs \<Rightarrow> map_of kvs ''data'' | _ \<Rightarrow> None)"

definition normalize :: "json \<Rightarrow> error + json" where
  \<comment> \<open>the choice of \<open>dataToStore\<close>\<close>
  "normalize parsedData =
     (if truthy parsedData
         \<and> (case get_data parsedData of None \<Rightarrow> False | Some d \<Rightarrow> truthy d \<and> typeof_object d)
      then Inr (the (get_data parsedData))
      else if typeof_object parsedData \<and> \<not> isArray parsedData then Inr parsedData
      else if isArray parsedData then Inr (JObject [(''gsm_devices'', parsedData)])
      else Inl UnsupportedFormatError)"

text \<open>
  The store backend (AsyncStorage) is modelled by its key/value pairs, one pair per key,
  and by the operations that fail: a failing operation throws and changes nothing.
\<close>

type_synonym storage = "(string \<times> string) list"

record faults =
  getAllKeys_fails :: bool
  multiGet_fails :: bool
  multiRemove_fails :: bool
  setItem_fails :: "string \<Rightarrow> bool"

definition setItem :: "string \<Rightarrow> string \<Rightarrow> storage \<Rightarrow> storage" where
  "setItem key val st = obj_set key val st"

definition multiRemove :: "string list \<Rightarrow> storage \<Rightarrow> storage" where
  "multiRemove keys st = filter (\<lambda>(k, v). k \<notin> set keys) st"

definition clear_existing :: "faults \<Rightarrow> storage \<Rightarrow> storage" where
  \<comment> \<open>the \<open>try\<close> block that clears existing data; its \<open>catch\<close> only warns\<close>
  "clear_existing f st =
     (if getAllKeys_fails f then st
      else (let keys = map fst st
            in if 0 < length keys then (if multiRemove_fails f then st else multiRemove keys st)
               else st))"

definition Object_entries :: "json \<Rightarrow> error + (string \<times> json) list" where
  "Object_entries j =
     (case j of
        JNull \<Rightarrow> Inl TypeError
      | JObject kvs \<Rightarrow> Inr kvs
      | JArray xs \<Rightarrow> Inr (zip (map (\<lambda>i. NumberToString (int i)) [0..<length xs]) xs)
      | JString s \<Rightarrow> Inr (zip (map (\<lambda>i. NumberToString (int i)) [0..<length s]) (map (\<lambda>c. JString [c]) s))
      | _ \<Rightarrow> Inr [])"

definition valueToStore :: "json \<Rightarrow> string" where
  \<comment> \<open>\<open>typeof value === 'string' ? value : JSON.stringify(value)\<close>\<close>
  "valueToStore val = (case val of JString s \<Rightarrow> s | _ \<Rightarrow> JSON_stringify val)"

fun save_items :: "faults \<Rightarrow> (string \<times> json) list \<Rightarrow> nat \<Rightarrow> storage \<Rightarrow> nat \<times> storage" where
  \<comment> \<open>the \<open>for (const [key, value] of entries)\<close> loop: \<open>successCount\<close> and the store\<close>
  "save_items f [] successCount st = (successCount, st)"
| "save_items f ((key, val) # entries) successCount st =
     (if val = JNull then save_items f entries successCount st
      else if setItem_fails f key then save_items f entries successCount st
      else save_items f entries (successCount + 1) (setItem key (valueToStore val) st))"

definition restoreFromBackup :: "faults \<Rightarrow> storage \<Rightarrow> string \<Rightarrow> (error + bool) \<times> storage" where
  "restoreFromBackup f st backupJson =
     (if backupJson = [] then (Inl EmptyBackupError, st)
      else
        (case parse_backup (locate_end (locate_start (trim backupJson))) of
           Inl e \<Rightarrow> (Inl e, st)
         | Inr parsedData \<Rightarrow>
             (case normalize parsedData of
                Inl e \<Rightarrow> (Inl e, st)
              | Inr dataToStore \<Rightarrow>
                  (let st1 = clear_existing f st
                   in case Object_entries dataToStore of
                        Inl e \<Rightarrow> (Inl e, st1)
                      | Inr entries \<Rightarrow>
                          if length entries = 0 then (Inl NoDataError, st1)
                          else (let (successCount, st2) = save_items f entries 0 st1
                                in if successCount = 0 then (Inl RestoreFailedError, st2)
                                   else (Inr True, st2))))))"




definition no_faults :: faults where
  "no_faults = \<lparr>getAllKeys_fails = False, multiGet_fails = False, multiRemove_fails = False,
                 setItem_fails = (\<lambda>key. False)\<rparr>"


section \<open>Synchronization layer and cascading delete (DataStoreContext, DeviceManager)\<close>

text \<open>
  \<open>utils/DataStore\<close> is a collaborator of these wrappers: its operations are parameters,
  each with the outcome of the call (a returned value or a throw) and the repository
  state it leaves, over any type \<open>'r\<close> of repository states.
\<close>

datatype 'a outcome = Returns 'a | Throws

record snapshot =
  devices :: json
  users :: json
  globalSettings :: json

record 'r DataStore =
  ds_getStore :: "'r \<Rightarrow> snapshot outcome"
  ds_getDeviceById :: "string \<Rightarrow> 'r \<Rightarrow> json option outcome"
  ds_deleteDevice :: "string \<Rightarrow> 'r \<Rightarrow> bool outcome \<times> 'r"
  ds_addDeviceLog :: "addDeviceLog_call \<Rightarrow> 'r \<Rightarrow> unit outcome \<times> 'r"

text \<open>
  The provider's state: the \<open>isRefreshing\<close> ref, the cached \<open>store\<close>, and \<open>reads\<close>, which
  counts the calls of \<open>dataStore.getStore()\<close> made so far.
\<close>

record provider =
  isRefreshing :: bool
  store :: snapshot
  reads :: nat

definition snapshot_text :: "snapshot \<Rightarrow> string" where
  \<comment> \<open>\<open>JSON.stringify({devices: ..., users: ..., globalSettings: ...})\<close>\<close>
  "snapshot_text sn =
     JSON_stringify
       (JObject [(''devices'', devices sn), (''users'', users sn), (''globalSettings'', globalSettings sn)])"

definition refresh_body :: "'r DataStore \<Rightarrow> 'r \<Rightarrow> provider \<Rightarrow> provider" where
  \<comment> \<open>the \<open>try\<close> block of \<open>refreshStore\<close>; its \<open>catch\<close> only logs\<close>
  "refresh_body ds r c =
     (case ds_getStore ds r of
        Throws \<Rightarrow> c\<lparr>reads := reads c + 1\<rparr>
      | Returns storeData \<Rightarrow>
          c\<lparr>reads := reads c + 1,
            store := (if snapshot_text (store c) = snapshot_text storeData then store c else storeData)\<rparr>)"

definition refreshStore :: "'r DataStore \<Rightarrow> 'r \<Rightarrow> provider \<Rightarrow> provider" where
  "refreshStore ds r c =
     (if isRefreshing c then c
      else (refresh_body ds r (c\<lparr>isRefreshing := True\<rparr>))\<lparr>isRefreshing := False\<rparr>)"

definition deletion_log :: "string \<Rightarrow> addDeviceLog_call" where
  "deletion_log dev =
     \<lparr>deviceId = dev, action = ''Device Management'', details = ''Device deleted'',
      success = True, category = System\<rparr>"

definition deleteDevice :: "'r DataStore \<Rightarrow> string \<Rightarrow> 'r \<Rightarrow> provider \<Rightarrow> bool \<times> 'r \<times> provider" where
  \<comment> \<open>the \<open>deleteDevice\<close> of the context value: the result, the repository and the provider's
      state after the call\<close>
  "deleteDevice ds dev r c =
     (case ds_deleteDevice ds dev r of
        (Throws, r1) \<Rightarrow> (False, r1, c)
      | (Returns ok, r1) \<Rightarrow>
          if ok then
            (let c1 = refreshStore ds r1 c
             in case ds_addDeviceLog ds (deletion_log dev) r1 of
                  (Throws, r2) \<Rightarrow> (False, r2, c1)
                | (Returns u, r2) \<Rightarrow> (True, r2, c1))
          else (False, r1, c))"

definition DeviceManager_deleteDevice :: "'r DataStore \<Rightarrow> string \<Rightarrow> 'r \<Rightarrow> bool \<times> 'r" where
  "DeviceManager_deleteDevice ds dev r =
     (if dev = [] then (False, r)
      else
        (case ds_getDeviceById ds dev r of
           Throws \<Rightarrow> (False, r)
         | Returns device \<Rightarrow>
             (case ds_deleteDevice ds dev r of
                (Throws, r1) \<Rightarrow> (False, r1)
              | (Returns ok, r1) \<Rightarrow> (ok \<and> device \<noteq> None, r1))))"

text \<open>
  A repository to run the wrappers on: its state is the list of device ids, deleting
  removes the id and reports whether it was there, and writing a log entry throws when
  \<open>log_throws\<close> is set (as a failing store backend makes it).
\<close>

definition sample_DataStore :: "bool \<Rightarrow> (string list) DataStore" where
  "sample_DataStore log_throws =
     \<lparr>ds_getStore = (\<lambda>r. Returns \<lparr>devices = JArray (map JString r), users = JArray [],
                                    globalSettings = JNull\<rparr>),
      ds_getDeviceById = (\<lambda>dev r. Returns (if dev \<in> set r then Some (JString dev) else None)),
      ds_deleteDevice = (\<lambda>dev r. (Returns (dev \<in> set r), removeAll dev r)),
      ds_addDeviceLog = (\<lambda>call r. (if log_throws then Throws else Returns (), r))\<rparr>"

definition sample_provider :: provider where
  "sample_provider =
     \<lparr>isRefreshing = False,
      store = \<lparr>devices = JArray [], users = JArray [], globalSettings = JNull\<rparr>,
      reads = 0\<rparr>"

section \<open>The specification's wording of two restore stages\<close>

text \<open>
  Two definitions that follow the specification's sentences, to be compared with
  \<open>locate_end\<close> and \<open>normalize\<close>, which follow the source.
\<close>

fun first_balanced :: "int \<Rightarrow> nat \<Rightarrow> string \<Rightarrow> nat option" where
  \<comment> \<open>"the offset where depth first returns to zero after having been positive"\<close>
  "first_balanced depth i [] = None"
| "first_balanced depth i (c # cs) =
     (if c = CHR ''{'' then first_balanced (depth + 1) (i + 1) cs
      else if c = CHR ''}'' then
        (if 0 < depth \<and> depth - 1 = 0 then Some (i + 1) else first_balanced (depth - 1) (i + 1) cs)
      else first_balanced depth (i + 1) cs)"

definition locate_end_spec :: "string \<Rightarrow> string" where
  \<comment> \<open>"truncate everything after that offset"\<close>
  "locate_end_spec s = (case first_balanced 0 0 s of None \<Rightarrow> s | Some n \<Rightarrow> take n s)"

text \<open>
  What \<open>scan_braces\<close> finds, in words: \<open>k\<close> is the offset after the last closing brace at
  which the brace depth is zero, and \<open>0\<close> when there is no such brace.
\<close>

definition last_balanced_close :: "string \<Rightarrow> nat \<Rightarrow> bool" where
  "last_balanced_close s k \<longleftrightarrow>
     k \<le> length s
     \<and> (0 < k \<longrightarrow> s ! (k - 1) = CHR ''}'' \<and> brace_depth (take k s) = 0)
     \<and> (\<forall>n. k < n \<and> n \<le> length s \<and> s ! (n - 1) = CHR ''}'' \<longrightarrow> brace_depth (take n s) \<noteq> 0)"

definition is_plain_object :: "json \<Rightarrow> bool" where
  \<comment> \<open>a non-array object\<close>
  "is_plain_object j = (case j of JObject kvs \<Rightarrow> True | _ \<Rightarrow> False)"

definition normalize_spec :: "json \<Rightarrow> error + json" where
  \<comment> \<open>"if the parsed result has a top-level data field that is itself a non-array object,
      use that as the key-space; else if the parsed result is a non-array object, use it
      directly; else if it is an array, wrap it; otherwise fail"\<close>
  "normalize_spec parsedData =
     (case get_data parsedData of
        Some d \<Rightarrow>
          if is_plain_object d then Inr d
          else if is_plain_object parsedData then Inr parsedData
          else if isArray parsedData then Inr (JObject [(''gsm_devices'', parsedData)])
          else Inl UnsupportedFormatError
      | None \<Rightarrow>
          if is_plain_object parsedData then Inr parsedData
          else if isArray parsedData then Inr (JObject [(''gsm_devices'', parsedData)])
          else Inl UnsupportedFormatError)"


section \<open>Facts about the string primitives\<close>

lemma includes_iff_sublist: "includes_js s sub \<longleftrightarrow> sublist sub s"
  by (induction s) (auto simp: sublist_Cons_right)

lemma includes_append: "includes_js (pre @ sub @ post) sub"
  by (simp add: includes_iff_sublist)

lemma regex_search_Some:
  "regex_search m s = Some (b, x, a) \<Longrightarrow> s = b @ x @ a \<and> m (x @ a) \<noteq> None"
proof (induction s arbitrary: b)
  case Nil
  then show ?case by (auto split: option.splits)
next
  case (Cons c cs)
  show ?case
  proof (cases "m (c # cs)")
    case None
    with Cons.prems obtain b' where b: "b = c # b'" and r: "regex_search m cs = Some (b', x, a)"
      by auto
    from Cons.IH [OF r] b show ?thesis by simp
  next
    case (Some n)
    with Cons.prems show ?thesis by auto
  qed
qed

lemma regex_search_None:
  "regex_search m s = None \<Longrightarrow> m (drop i s) = None"
proof (induction s arbitrary: i)
  case Nil
  then show ?case by (auto split: option.splits)
next
  case (Cons c cs)
  then show ?case by (cases i) (auto split: option.splits)
qed

lemma GetSubstitution_whole_match: "GetSubstitution x b a ''$&'' = x"
  by simp

lemma maskedCommand_id: "maskedCommand command = command"
proof (cases "regex_search re_masked command")
  case None
  then show ?thesis by (simp add: maskedCommand_def js_replace_def)
next
  case (Some r)
  obtain b x a where r: "r = (b, x, a)" by (cases r)
  from Some r regex_search_Some [of re_masked command b x a] have "command = b @ x @ a" by simp
  with Some r show ?thesis by (simp add: maskedCommand_def js_replace_def)
qed

lemma regex_search_leftmost:
  "m (drop k s) = Some n \<Longrightarrow> (\<forall>i<k. m (drop i s) = None) \<Longrightarrow> k \<le> length s \<Longrightarrow>
   regex_search m s = Some (take k s, take n (drop k s), drop n (drop k s))"
proof (induction s arbitrary: k)
  case Nil
  then show ?case by simp
next
  case (Cons c cs)
  show ?case
  proof (cases k)
    case 0
    with Cons.prems show ?thesis by simp
  next
    case (Suc j)
    with Cons.prems have none: "m (c # cs) = None" by fastforce
    from Suc Cons.prems have a: "m (drop j cs) = Some n" and c: "j \<le> length cs" by simp_all
    have b: "\<forall>i<j. m (drop i cs) = None"
    proof (intro allI impI)
      fix i assume "i < j"
      then have "Suc i < k" using Suc by simp
      with Cons.prems(2) have "m (drop (Suc i) (c # cs)) = None" by blast
      then show "m (drop i cs) = None" by simp
    qed
    from Cons.IH [OF a b c] none Suc show ?thesis by simp
  qed
qed

lemma re_GOT_digits:
  "length d = 3 \<Longrightarrow> list_all is_digit d \<Longrightarrow> re_GOT (''GOT'' @ d @ r) = Some 6"
  by (cases d; cases "tl d"; cases "tl (tl d)") auto

lemma GOT_time_leftmost:
  assumes "command = pre @ ''GOT'' @ t @ post" "length t = 3" "list_all is_digit t"
    and "\<forall>i<length pre. re_GOT (drop i command) = None"
  shows "GOT_time command = t"
proof -
  have "re_GOT (drop (length pre) command) = Some 6"
    using assms(1-3) re_GOT_digits [of t post] by simp
  from regex_search_leftmost [OF this assms(4)] assms(1,2)
  show ?thesis by (simp add: GOT_time_def)
qed

lemma GOT_time_unknown: "\<not> js_match re_GOT command \<Longrightarrow> GOT_time command = ''unknown''"
  by (cases "regex_search re_GOT command") (simp_all add: GOT_time_def js_match_def)

section \<open>The parser consumes its input and never reaches its recursion bound\<close>

lemma length_dropWhile_less: "dropWhile P s = c # cs \<Longrightarrow> length cs < length s"
  using length_dropWhile_le [of P s] by simp

lemma parse_int_part_shorter: "parse_int_part s = Some (n, rest) \<Longrightarrow> length rest < length s"
  using length_dropWhile_le [of is_digit "tl s"]
  by (cases s) (auto split: if_splits)

lemma parse_number_shorter: "parse_number s = Some (i, rest) \<Longrightarrow> length rest < length s"
proof -
  assume a: "parse_number s = Some (i, rest)"
  then obtain c cs where s: "s = c # cs" by (cases s) (auto simp: parse_number_def)
  show ?thesis
  proof (cases "c = CHR ''-''")
    case True
    with a s obtain n where "parse_int_part cs = Some (n, rest)"
      by (auto simp: parse_number_def split: option.splits list.splits if_splits)
    then show ?thesis using s by (auto dest: parse_int_part_shorter)
  next
    case False
    with a s obtain n where "parse_int_part (c # cs) = Some (n, rest)"
      by (auto simp: parse_number_def simp del: parse_int_part.simps split: option.splits list.splits if_splits)
    then show ?thesis using s by (auto simp del: parse_int_part.simps dest: parse_int_part_shorter)
  qed
qed

lemma parse_chars_shorter: "parse_chars s = Some (str, rest) \<Longrightarrow> length rest < length s"
proof (induction s arbitrary: str rule: parse_chars.induct)
  case 1
  then show ?case by simp
next
  case (2 c cs)
  show ?case
  proof (cases "c = CHR 0x22")
    case True
    from "2.prems" [unfolded True] show ?thesis by simp
  next
    case nq: False
    show ?thesis
    proof (cases "c = CHR 0x5C")
      case True
      with nq "2.prems" obtain x k where d: "decode_escape cs = Some (x, k)"
        and "map_option (\<lambda>(str, rest). (x # str, rest)) (parse_chars (drop k cs)) = Some (str, rest)"
        by (auto split: option.splits)
      then obtain str' where "parse_chars (drop k cs) = Some (str', rest)"
        by (cases "parse_chars (drop k cs)") auto
      from "2.IH"(1) [OF nq True d refl this] show ?thesis by simp
    next
      case nb: False
      show ?thesis
      proof (cases "(of_char c :: nat) < 32")
        case True
        with nq nb "2.prems" show ?thesis by simp
      next
        case False
        with nq nb "2.prems" have
          "map_option (\<lambda>(str, rest). (c # str, rest)) (parse_chars cs) = Some (str, rest)"
          by simp
        then obtain str' where "parse_chars cs = Some (str', rest)"
          by (cases "parse_chars cs") auto
        from "2.IH"(2) [OF nq nb False this] show ?thesis by simp
      qed
    qed
  qed
qed

lemma parse_shorter:
  "parse_value n s = Parsed v rest \<Longrightarrow> length rest < length s"
  "parse_elements n acc s = Parsed v rest \<Longrightarrow> length rest < length s"
  "parse_members n acc' s = Parsed v rest \<Longrightarrow> length rest < length s"
proof (induction n s and n acc s and n acc' s arbitrary: v rest and v rest and v rest
    rule: parse_value_parse_elements_parse_members.induct)
  case (1 s)
  then show ?case by simp
next
  case (2 n s)
  from "2.prems" obtain c cs where d: "dropWhile is_json_ws s = c # cs"
    by (cases "dropWhile is_json_ws s") (simp_all del: dropWhile_eq_Nil_conv)
  then have l: "length cs < length s" by (rule length_dropWhile_less)
  from d have l': "length (c # cs) \<le> length s" using length_dropWhile_le [of is_json_ws s] by simp
  note p = "2.prems" [unfolded parse_value.simps d list.case]
  show ?case
  proof (cases "c = CHR ''{''")
    case True
    with p obtain e es where e: "dropWhile is_json_ws cs = e # es"
      by (cases "dropWhile is_json_ws cs") (simp_all del: dropWhile_eq_Nil_conv)
    then have l2: "length es < length cs" by (rule length_dropWhile_less)
    show ?thesis
    proof (cases "e = CHR ''}''")
      case close: True
      with p True e have "rest = es" by simp
      with l l2 show ?thesis by simp
    next
      case False
      with p True e have "parse_members n [] (e # es) = Parsed v rest" by simp
      from "2.IH"(1) [OF d True e False this] l l2 show ?thesis by simp
    qed
  next
    case nobj: False
    show ?thesis
    proof (cases "c = CHR ''[''")
      case True
      with p nobj obtain e es where e: "dropWhile is_json_ws cs = e # es"
        by (cases "dropWhile is_json_ws cs") (simp_all del: dropWhile_eq_Nil_conv)
      then have l2: "length es < length cs" by (rule length_dropWhile_less)
      show ?thesis
      proof (cases "e = CHR '']''")
        case close: True
        with p nobj True e have "rest = es" by simp
        with l l2 show ?thesis by simp
      next
        case False
        with p nobj True e have "parse_elements n [] (e # es) = Parsed v rest" by simp
        from "2.IH"(2) [OF d nobj True e False this] l l2 show ?thesis by simp
      qed
    next
      case narr: False
      show ?thesis
      proof (cases "c = CHR 0x22")
        case True
        with p nobj narr obtain str where "parse_chars cs = Some (str, rest)"
          by (cases "parse_chars cs") auto
        from parse_chars_shorter [OF this] l show ?thesis by simp
      next
        case nstr: False
        from p nobj narr nstr have
          "rest = drop 4 (c # cs) \<or> rest = drop 5 (c # cs)
           \<or> (\<exists>i. parse_number (c # cs) = Some (i, rest))"
          by (cases "parse_number (c # cs)") (auto split: if_splits)
        then show ?thesis using l l' by (auto dest: parse_number_shorter)
      qed
    qed
  qed
next
  case (3 acc s)
  then show ?case by simp
next
  case (4 n acc s)
  from "4.prems" obtain x r where x: "parse_value n s = Parsed x r"
    by (cases "parse_value n s") simp_all
  from "4.IH"(1) [OF x] have l: "length r < length s" .
  note p = "4.prems" [unfolded parse_elements.simps x parsed.case]
  from p obtain c cs where c: "dropWhile is_json_ws r = c # cs"
    by (cases "dropWhile is_json_ws r") (simp_all del: dropWhile_eq_Nil_conv)
  then have l2: "length cs < length r" by (rule length_dropWhile_less)
  show ?case
  proof (cases "c = CHR '',''")
    case True
    with p c have "parse_elements n (acc @ [x]) cs = Parsed v rest" by simp
    from "4.IH"(2) [OF x c True this] l l2 show ?thesis by simp
  next
    case False
    with p c have "rest = cs" by (simp split: if_splits)
    with l l2 show ?thesis by simp
  qed
next
  case (5 acc s)
  then show ?case by simp
next
  case (6 n acc s)
  from "6.prems" obtain q cs where q: "dropWhile is_json_ws s = q # cs"
    by (cases "dropWhile is_json_ws s") (simp_all del: dropWhile_eq_Nil_conv)
  then have l1: "length cs < length s" by (rule length_dropWhile_less)
  note p1 = "6.prems" [unfolded parse_members.simps q list.case]
  from p1 have q': "\<not> q \<noteq> CHR 0x22" by (auto split: if_splits)
  from p1 q' obtain k r where k: "parse_chars cs = Some (k, r)"
    by (cases "parse_chars cs") auto
  from parse_chars_shorter [OF k] have l2: "length r < length cs" .
  from p1 q' k obtain d ds where d: "dropWhile is_json_ws r = d # ds"
    by (cases "dropWhile is_json_ws r") (simp_all del: dropWhile_eq_Nil_conv)
  then have l3: "length ds < length r" by (rule length_dropWhile_less)
  from p1 q' k d have c': "\<not> d \<noteq> CHR '':''" by (auto split: if_splits)
  from p1 q' k d c' obtain x r' where x: "parse_value n ds = Parsed x r'"
    by (cases "parse_value n ds") simp_all
  from "6.IH"(1) [OF q q' k refl d c' x] have l4: "length r' < length ds" .
  from p1 q' k d c' x obtain e es where e: "dropWhile is_json_ws r' = e # es"
    by (cases "dropWhile is_json_ws r'") (simp_all del: dropWhile_eq_Nil_conv)
  then have l5: "length es < length r'" by (rule length_dropWhile_less)
  show ?case
  proof (cases "e = CHR '',''")
    case True
    with p1 q' k d c' x e have "parse_members n (obj_set k x acc) es = Parsed v rest" by simp
    from "6.IH"(2) [OF q q' k refl d c' x e True this] l1 l2 l3 l4 l5 show ?thesis by simp
  next
    case False
    with p1 q' k d c' x e have "rest = es" by (simp split: if_splits)
    with l1 l2 l3 l4 l5 show ?thesis by simp
  qed
qed

lemma parse_not_exhausted:
  "2 * length s < n \<Longrightarrow> parse_value n s \<noteq> Exhausted"
  "2 * length s + 1 < n \<Longrightarrow> parse_elements n acc s \<noteq> Exhausted"
  "2 * length s + 1 < n \<Longrightarrow> parse_members n acc' s \<noteq> Exhausted"
proof (induction n s and n acc s and n acc' s
    rule: parse_value_parse_elements_parse_members.induct)
  case (1 s)
  then show ?case by simp
next
  case (2 n s)
  show ?case
  proof (cases "dropWhile is_json_ws s")
    case Nil
    then show ?thesis by (simp del: dropWhile_eq_Nil_conv)
  next
    case (Cons c cs)
    then have l: "length cs < length s" by (rule length_dropWhile_less)
    have m: "dropWhile is_json_ws cs = d # ds \<Longrightarrow> 2 * length (d # ds) + 1 < n" for d ds
      using l "2.prems" length_dropWhile_le [of is_json_ws cs] by simp
    show ?thesis
      using Cons "2.IH"(1) [OF Cons] "2.IH"(2) [OF Cons] m
      by (auto simp del: dropWhile_eq_Nil_conv split: list.splits option.splits prod.splits)
  qed
next
  case (3 acc s)
  then show ?case by simp
next
  case (4 n acc s)
  from "4.prems" have v: "parse_value n s \<noteq> Exhausted" by (intro "4.IH"(1)) simp
  show ?case
  proof (cases "parse_value n s")
    case (Parsed x rest)
    then have l: "length rest < length s" by (rule parse_shorter(1))
    show ?thesis
    proof (cases "dropWhile is_json_ws rest")
      case Nil
      with Parsed show ?thesis by (simp del: dropWhile_eq_Nil_conv)
    next
      case (Cons c cs)
      then have "length cs < length rest" by (rule length_dropWhile_less)
      with l "4.prems" have "2 * length cs + 1 < n" by simp
      with "4.IH"(2) [OF Parsed Cons] Parsed Cons show ?thesis by (auto simp del: dropWhile_eq_Nil_conv)
    qed
  next
    case Failed
    then show ?thesis by (simp del: dropWhile_eq_Nil_conv)
  next
    case Exhausted
    with v show ?thesis by (simp del: dropWhile_eq_Nil_conv)
  qed
next
  case (5 acc s)
  then show ?case by simp
next
  case (6 n acc s)
  show ?case
  proof (cases "dropWhile is_json_ws s")
    case Nil
    then show ?thesis by (simp del: dropWhile_eq_Nil_conv)
  next
    case (Cons q cs)
    then have l1: "length cs < length s" by (rule length_dropWhile_less)
    show ?thesis
    proof (cases "q = CHR 0x22")
      case False
      with Cons show ?thesis by (simp del: dropWhile_eq_Nil_conv)
    next
      case q: True
      show ?thesis
      proof (cases "parse_chars cs")
        case None
        with Cons q show ?thesis by (simp del: dropWhile_eq_Nil_conv)
      next
        case (Some kr)
        obtain k rest where kr: "kr = (k, rest)" by (cases kr)
        from Some kr have l2: "length rest < length cs" by (simp add: parse_chars_shorter)
        show ?thesis
        proof (cases "dropWhile is_json_ws rest")
          case Nil
          with Cons q Some kr show ?thesis by (simp del: dropWhile_eq_Nil_conv)
        next
          case d: (Cons d ds)
          then have l3: "length ds < length rest" by (rule length_dropWhile_less)
          show ?thesis
          proof (cases "d = CHR '':''")
            case False
            with Cons q Some kr d show ?thesis by (simp del: dropWhile_eq_Nil_conv)
          next
            case colon: True
            have q': "\<not> q \<noteq> CHR 0x22" using q by simp
            have c': "\<not> d \<noteq> CHR '':''" using colon by simp
            have kr': "(k, rest) = (k, rest)" ..
            from l1 l2 l3 "6.prems" have "2 * length ds < n" by simp
            then have v: "parse_value n ds \<noteq> Exhausted"
              using "6.IH"(1) [OF Cons q' Some [unfolded kr] kr' d c'] by simp
            show ?thesis
            proof (cases "parse_value n ds")
              case (Parsed x rest')
              then have l4: "length rest' < length ds" by (rule parse_shorter(1))
              show ?thesis
              proof (cases "dropWhile is_json_ws rest'")
                case Nil
                with Cons q Some kr d colon Parsed show ?thesis by (simp del: dropWhile_eq_Nil_conv)
              next
                case e: (Cons e es)
                then have "length es < length rest'" by (rule length_dropWhile_less)
                with l1 l2 l3 l4 "6.prems" have "2 * length es + 1 < n" by simp
                with "6.IH"(2) [OF Cons q' Some [unfolded kr] kr' d c' Parsed e]
                  Cons q Some kr d colon Parsed e
                show ?thesis by (auto simp del: dropWhile_eq_Nil_conv)
              qed
            next
              case Failed
              with Cons q Some kr d colon show ?thesis by (simp del: dropWhile_eq_Nil_conv)
            next
              case Exhausted
              with v show ?thesis by (simp del: dropWhile_eq_Nil_conv)
            qed
          qed
        qed
      qed
    qed
  qed
qed

lemma JSON_parse_total:
  "parse_value (2 * length s + 1) s \<noteq> Exhausted"
  by (rule parse_not_exhausted(1)) simp

section \<open>Facts about the restore stages\<close>

lemma trim_all_space: "list_all is_space s \<Longrightarrow> trim s = []"
proof -
  assume "list_all is_space s"
  then have d: "dropWhile is_space s = []" by (simp add: list_all_iff)
  show ?thesis unfolding trim_def d by simp
qed

lemma locate_start_Nil: "locate_start [] = []"
  by (simp add: locate_start_def)

lemma locate_end_Nil: "locate_end [] = []"
  by (simp add: locate_end_def)

lemma JSON_parse_Nil: "JSON_parse [] = None"
  by (simp add: JSON_parse_def)

lemma parse_backup_Nil: "parse_backup [] = Inl MalformedBackupError"
  by (simp add: parse_backup_def JSON_parse_Nil repair_def)

lemma preprocess_Nil: "locate_end (locate_start (trim [])) = []"
  by (simp add: trim_def locate_start_Nil locate_end_Nil)

lemma save_items_skips_null:
  "save_items f entries n st = save_items f (filter (\<lambda>(k, v). v \<noteq> JNull) entries) n st"
  by (induction entries arbitrary: n st) auto

lemma save_items_all_null:
  "\<forall>(k, v) \<in> set entries. v = JNull \<Longrightarrow> save_items f entries n st = (n, st)"
  by (induction entries arbitrary: n st) auto

lemma depth_simps [simp]:
  "brace_depth [] = 0"
  "brace_depth (c # cs) = (if c = CHR ''{'' then 1 else if c = CHR ''}'' then - 1 else 0) + brace_depth cs"
  "brace_depth (xs @ ys) = brace_depth xs + brace_depth ys"
  by (simp_all add: brace_depth_def)

lemma scan_braces_append:
  "scan_braces bc lvp i (xs @ ys)
     = scan_braces (bc + brace_depth xs) (scan_braces bc lvp i xs) (i + length xs) ys"
  by (induction xs arbitrary: bc lvp i) (simp_all add: algebra_simps)

lemma scan_braces_no_braces:
  "\<forall>c \<in> set ys. c \<noteq> CHR ''{'' \<and> c \<noteq> CHR ''}'' \<Longrightarrow> scan_braces bc lvp i ys = lvp"
  by (induction ys arbitrary: i) simp_all

lemma scan_braces_balanced_end:
  assumes "p \<noteq> []" "last p = CHR ''}''" "brace_depth p = 0"
    and "\<forall>c \<in> set t. c \<noteq> CHR ''{'' \<and> c \<noteq> CHR ''}''"
  shows "scan_braces 0 0 0 (p @ t) = length p"
proof -
  from assms(1,2) obtain q where p: "p = q @ ''}''"
    by (cases p rule: rev_cases) auto
  with assms(3) have d: "brace_depth q - 1 = 0" by simp
  have "scan_braces 0 0 0 p = length p"
    unfolding p scan_braces_append using d by simp
  then show ?thesis
    by (simp add: scan_braces_append scan_braces_no_braces [OF assms(4)])
qed

lemma locate_end_balanced:
  assumes "p \<noteq> []" "last p = CHR ''}''" "brace_depth p = 0"
    and "\<forall>c \<in> set t. c \<noteq> CHR ''{'' \<and> c \<noteq> CHR ''}''"
  shows "locate_end (p @ t) = p"
  using assms(1) by (simp add: locate_end_def scan_braces_balanced_end [OF assms])

lemma fold_min_le: "fold min xs (a::int) \<le> a"
proof (induction xs arbitrary: a)
  case Nil
  show ?case by simp
next
  case (Cons x xs)
  have "fold min xs (min x a) \<le> min x a" by (rule Cons.IH)
  also have "min x a \<le> a" by simp
  finally show ?case by simp
qed

lemma indexOf_prefix: "prefix sub s \<Longrightarrow> indexOf s sub = 0"
  by (cases s) auto

lemma locate_start_at_zero:
  assumes "prefix [CHR ''{'', CHR 0x22] s"
  shows "locate_start s = s"
proof -
  have "indexOf s [CHR ''{'', CHR 0x22] = 0" using assms by (rule indexOf_prefix)
  then have "\<not> 0 < (if filter (\<lambda>pos. 0 \<le> pos)
              [indexOf s [CHR ''{'', CHR 0x22], indexOf s [CHR ''{'', CHR 0x0A, CHR 0x22],
               indexOf s [CHR ''{'', CHR 0x20, CHR 0x22], lastIndexOf s [CHR ''{'', CHR 0x22]] \<noteq> []
            then Math_min (filter (\<lambda>pos. 0 \<le> pos)
              [indexOf s [CHR ''{'', CHR 0x22], indexOf s [CHR ''{'', CHR 0x0A, CHR 0x22],
               indexOf s [CHR ''{'', CHR 0x20, CHR 0x22], lastIndexOf s [CHR ''{'', CHR 0x22]])
            else - 1)"
    using fold_min_le [of _ 0] by (simp add: Math_min_def not_less)
  then show ?thesis unfolding locate_start_def Let_def by simp
qed

lemma trim_keeps_body:
  assumes "p \<noteq> []" "\<not> is_space (hd p)" "\<not> is_space (last p)"
  shows "\<exists>t'. trim (p @ t) = p @ t' \<and> set t' \<subseteq> set t"
proof -
  from assms(1,2) have a: "dropWhile is_space (p @ t) = p @ t"
    by (cases p) simp_all
  have b: "dropWhile is_space (rev p) = rev p"
    using assms(1,3) by (cases p rule: rev_cases) simp_all
  show ?thesis
  proof (cases "\<forall>x \<in> set (rev t). is_space x")
    case True
    then have "dropWhile is_space (rev t @ rev p) = rev p"
      using b by (simp add: dropWhile_append)
    then have "trim (p @ t) = p @ []" by (simp add: trim_def a)
    then show ?thesis by (intro exI [of _ "[]"]) simp
  next
    case False
    then obtain x where "x \<in> set (rev t)" "\<not> is_space x" by auto
    then have "dropWhile is_space (rev t @ rev p) = dropWhile is_space (rev t) @ rev p"
      by (rule dropWhile_append1)
    then have "trim (p @ t) = p @ rev (dropWhile is_space (rev t))" by (simp add: trim_def a)
    moreover have "set (rev (dropWhile is_space (rev t))) \<subseteq> set t"
      by (auto dest: set_dropWhileD)
    ultimately show ?thesis by (intro exI [of _ "rev (dropWhile is_space (rev t))"]) simp
  qed
qed

lemma preprocess_leading_object:
  assumes "prefix [CHR ''{'', CHR 0x22] p" "last p = CHR ''}''"
    and "count_list p (CHR ''{'') = count_list p (CHR ''}'')"
    and "\<forall>c \<in> set t. c \<noteq> CHR ''{'' \<and> c \<noteq> CHR ''}''"
  shows "locate_end (locate_start (trim (p @ t))) = p"
proof -
  from assms(1) have ne: "p \<noteq> []" and h: "hd p = CHR ''{''" by (auto simp: prefix_def)
  from h assms(2) have sp: "\<not> is_space (hd p)" "\<not> is_space (last p)" by (simp_all add: is_space_def)
  from trim_keeps_body [OF ne sp, of t] obtain t' where t': "trim (p @ t) = p @ t'" "set t' \<subseteq> set t"
    by auto
  from assms(1) have "prefix [CHR ''{'', CHR 0x22] (p @ t')" by (simp add: prefix_prefix)
  then have s: "locate_start (p @ t') = p @ t'" by (rule locate_start_at_zero)
  from assms(3) have d: "brace_depth p = 0" by (simp add: brace_depth_def)
  from t'(2) assms(4) have "\<forall>c \<in> set t'. c \<noteq> CHR ''{'' \<and> c \<noteq> CHR ''}''" by auto
  from locate_end_balanced [OF ne assms(2) d this] t'(1) s show ?thesis by simp
qed


lemma last_balanced_close_snoc:
  assumes "last_balanced_close pre lvp"
  shows "last_balanced_close (pre @ [c])
           (if c = CHR ''}'' \<and> brace_depth pre - 1 = 0 then length pre + 1 else lvp)"
proof (cases "c = CHR ''}'' \<and> brace_depth pre - 1 = 0")
  case True
  then show ?thesis by (simp add: last_balanced_close_def)
next
  case False
  have "brace_depth (take n (pre @ [c])) \<noteq> 0"
    if n: "lvp < n" "n \<le> length (pre @ [c])" "(pre @ [c]) ! (n - 1) = CHR ''}''" for n
  proof (cases "n \<le> length pre")
    case True
    with n have "n - 1 < length pre" by simp
    with n have "pre ! (n - 1) = CHR ''}''" by (simp add: nth_append)
    with n True assms have "brace_depth (take n pre) \<noteq> 0"
      by (simp add: last_balanced_close_def)
    with True show ?thesis by simp
  next
    case f: False
    with n have "n = length pre + 1" by simp
    with n False show ?thesis by auto
  qed
  with assms False show ?thesis
    by (auto simp: last_balanced_close_def nth_append)
qed

lemma scan_braces_last_balanced:
  "last_balanced_close pre lvp \<Longrightarrow>
   last_balanced_close (pre @ s) (scan_braces (brace_depth pre) lvp (length pre) s)"
proof (induction s arbitrary: pre lvp)
  case Nil
  then show ?case by simp
next
  case (Cons c cs)
  from last_balanced_close_snoc [OF Cons.prems, of c]
  have "last_balanced_close ((pre @ [c]) @ cs)
          (scan_braces (brace_depth (pre @ [c]))
             (if c = CHR ''}'' \<and> brace_depth pre - 1 = 0 then length pre + 1 else lvp)
             (length (pre @ [c])) cs)"
    by (rule Cons.IH)
  then show ?case by (auto simp: algebra_simps)
qed

lemma scan_braces_is_last_balanced: "last_balanced_close s (scan_braces 0 0 0 s)"
proof -
  have "last_balanced_close [] 0" by (auto simp: last_balanced_close_def)
  from scan_braces_last_balanced [OF this, of s] show ?thesis by simp
qed









section \<open>The classifier's claims\<close>

text \<open>
  C1. The claim: a command holding a 4-digit run followed by an uppercase letter is logged
  with the run replaced by a mask, so the detail logged for \<open>1234CC#\<close> does not contain
  \<open>1234\<close>. The source computes the replacement text as \<open>'****$&'.slice(4)\<close>, which is
  \<open>$&\<close>, the match itself: the command is logged as it was sent (\<open>maskedCommand_id\<close>),
  and the detail logged for \<open>1234CC#\<close> contains the password \<open>1234\<close>.
\<close>

theorem C1_password_not_masked:
  "details (logSMSOperation ''dev1'' ''1234CC#'' True)
     = ''Sent command to activate relay (open gate): 1234CC#''
   \<and> includes_js (details (logSMSOperation ''dev1'' ''1234CC#'' True)) ''1234''"
  by (simp add: logSMSOperation_def maskedCommand_id)

text \<open>
  C7. Classification is first-match-wins: every command that contains \<open>CC\<close> is logged
  with action "Gate Open Command" and category relay, whatever else it contains.
\<close>

theorem C7_CC_wins:
  "includes_js command ''CC'' \<Longrightarrow>
   action (logSMSOperation dev command ok) = ''Gate Open Command''
   \<and> category (logSMSOperation dev command ok) = Relay"
  by (simp add: logSMSOperation_def)

theorem C7_CC_wins_witness:
  "includes_js ''1234CCDDGOTALLAUTTELEE#'' ''CC'' \<and> includes_js ''1234CCDDGOTALLAUTTELEE#'' ''DD''
   \<and> includes_js ''1234CCDDGOTALLAUTTELEE#'' ''GOT'' \<and> includes_js ''1234CCDDGOTALLAUTTELEE#'' ''ALL''
   \<and> includes_js ''1234CCDDGOTALLAUTTELEE#'' ''AUT'' \<and> includes_js ''1234CCDDGOTALLAUTTELEE#'' ''TEL''
   \<and> includes_js ''1234CCDDGOTALLAUTTELEE#'' ''EE''
   \<and> action (logSMSOperation ''dev1'' ''1234CCDDGOTALLAUTTELEE#'' True) = ''Gate Open Command''
   \<and> category (logSMSOperation ''dev1'' ''1234CCDDGOTALLAUTTELEE#'' True) = Relay"
  using C7_CC_wins [of "''1234CCDDGOTALLAUTTELEE#''" "''dev1''" True] by simp

text \<open>
  C8. Every command that contains \<open>GOT\<close> and neither \<open>CC\<close> nor \<open>DD\<close> is logged with
  action "Relay Timing Setting" and category settings; the time is the three digits that
  follow the leftmost \<open>GOT\<close> followed by three digits (\<open>unknown\<close> when there is none), and
  the detail says toggle mode when the time is \<open>000\<close> and the time followed by
  \<open>seconds\<close> otherwise. The witness evaluates \<open>1234GOT045#\<close> and \<open>1234GOT000#\<close>.
\<close>

theorem C8_GOT_timing:
  assumes "includes_js command ''GOT''" and "\<not> includes_js command ''CC''"
    and "\<not> includes_js command ''DD''"
  shows "action (logSMSOperation dev command ok) = ''Relay Timing Setting''
       \<and> category (logSMSOperation dev command ok) = Settings
       \<and> details (logSMSOperation dev command ok) =
           ''Set relay timing to ''
           @ (if GOT_time command = ''000'' then ''toggle mode'' else GOT_time command @ '' seconds'')
           @ '': '' @ maskedCommand command
       \<and> (\<forall>pre t post. command = pre @ ''GOT'' @ t @ post \<and> length t = 3 \<and> list_all is_digit t
             \<and> (\<forall>i<length pre. re_GOT (drop i command) = None) \<longrightarrow> GOT_time command = t)
       \<and> (\<not> js_match re_GOT command \<longrightarrow> GOT_time command = ''unknown'')"
  using assms by (auto simp: logSMSOperation_def GOT_time_leftmost GOT_time_unknown)

theorem C8_GOT_timing_witness:
  "details (logSMSOperation ''dev1'' ''1234GOT045#'' True)
     = ''Set relay timing to 045 seconds: 1234GOT045#''
   \<and> includes_js (details (logSMSOperation ''dev1'' ''1234GOT045#'' True)) ''45 seconds''
   \<and> category (logSMSOperation ''dev1'' ''1234GOT045#'' True) = Settings
   \<and> GOT_time ''1234GOT045#'' = ''045''
   \<and> details (logSMSOperation ''dev1'' ''1234GOT000#'' True)
     = ''Set relay timing to toggle mode: 1234GOT000#''
   \<and> includes_js (details (logSMSOperation ''dev1'' ''1234GOT000#'' True)) ''toggle mode''"
  using C8_GOT_timing [of "''1234GOT045#''" "''dev1''" True]
    C8_GOT_timing [of "''1234GOT000#''" "''dev1''" True]
  by (simp add: maskedCommand_id GOT_time_def is_digit_def)

section \<open>The synchronization layer's and the cascading delete's claims\<close>

text \<open>
  C9. A refresh called while the in-flight flag is set is a no-op: it returns the
  provider's state as it is, so it reads the repository zero times. A refresh called with
  the flag clear reads the repository once and leaves the flag clear. Hence two
  overlapping requests read once in total: the second request, made at the point where
  the first has set the flag, changes nothing, and the first goes on to its single read.
\<close>

theorem C9_refresh_in_flight:
  "(isRefreshing c \<longrightarrow> refreshStore ds r c = c)
   \<and> (\<not> isRefreshing c \<longrightarrow>
        reads (refreshStore ds r c) = reads c + 1
        \<and> \<not> isRefreshing (refreshStore ds r c)
        \<and> isRefreshing (c\<lparr>isRefreshing := True\<rparr>)
        \<and> (refresh_body ds r (refreshStore ds r' (c\<lparr>isRefreshing := True\<rparr>)))\<lparr>isRefreshing := False\<rparr>
            = refreshStore ds r c
        \<and> reads ((refresh_body ds r (refreshStore ds r' (c\<lparr>isRefreshing := True\<rparr>)))
                  \<lparr>isRefreshing := False\<rparr>) = reads c + 1)"
  by (cases "ds_getStore ds r") (simp_all add: refreshStore_def refresh_body_def)

theorem C9_refresh_in_flight_witness:
  "isRefreshing (sample_provider\<lparr>isRefreshing := True\<rparr>)
   \<and> reads (refreshStore (sample_DataStore False) [''d1''] (sample_provider\<lparr>isRefreshing := True\<rparr>)) = 0
   \<and> \<not> isRefreshing sample_provider
   \<and> reads ((refresh_body (sample_DataStore False) [''d1'']
               (refreshStore (sample_DataStore False) [''d1''] (sample_provider\<lparr>isRefreshing := True\<rparr>)))
             \<lparr>isRefreshing := False\<rparr>) = 1"
  using C9_refresh_in_flight [of "sample_provider\<lparr>isRefreshing := True\<rparr>" "sample_DataStore False" "[''d1'']" "[''d1'']"]
    C9_refresh_in_flight [of sample_provider "sample_DataStore False" "[''d1'']" "[''d1'']"]
  by (simp add: sample_provider_def)

text \<open>
  C6. The claim: \<open>deleteDevice\<close> returns true if and only if the primary removal succeeded,
  whatever happens to a later sub-step such as the follow-up audit log. In the source the
  follow-up \<open>addDeviceLog\<close> runs inside the same \<open>try\<close> as the removal, and the \<open>catch\<close> returns
  false: with a repository whose log write throws, the removal of \<open>d1\<close> succeeds, the
  device is gone, and \<open>deleteDevice\<close> returns false.
\<close>

theorem C6_log_failure_changes_result:
  "fst (ds_deleteDevice (sample_DataStore True) ''d1'' [''d1'', ''d2'']) = Returns True
   \<and> fst (deleteDevice (sample_DataStore True) ''d1'' [''d1'', ''d2''] sample_provider) = False
   \<and> fst (snd (deleteDevice (sample_DataStore True) ''d1'' [''d1'', ''d2''] sample_provider)) = [''d2'']"
  by (simp add: deleteDevice_def sample_DataStore_def)

text \<open>
  C6, as amended. The context's \<open>deleteDevice\<close> returns true if and only if the primary
  removal returned true and the follow-up audit log did not throw; it never undoes
  anything: the repository is left as the last call made on it left it.
  \<open>DeviceManager.deleteDevice\<close> returns true if and only if the id is not empty, the device
  was found before the removal and the primary removal returned true, and it leaves the
  repository as the removal left it.
\<close>

theorem C6_deleteDevice_result:
  "(fst (deleteDevice ds dev r c) \<longleftrightarrow>
      fst (ds_deleteDevice ds dev r) = Returns True
      \<and> fst (ds_addDeviceLog ds (deletion_log dev) (snd (ds_deleteDevice ds dev r))) \<noteq> Throws)
   \<and> fst (snd (deleteDevice ds dev r c)) =
       (if fst (ds_deleteDevice ds dev r) = Returns True
        then snd (ds_addDeviceLog ds (deletion_log dev) (snd (ds_deleteDevice ds dev r)))
        else snd (ds_deleteDevice ds dev r))
   \<and> (fst (DeviceManager_deleteDevice ds dev r) \<longleftrightarrow>
        dev \<noteq> [] \<and> (\<exists>d. ds_getDeviceById ds dev r = Returns (Some d))
        \<and> fst (ds_deleteDevice ds dev r) = Returns True)
   \<and> (dev \<noteq> [] \<and> ds_getDeviceById ds dev r \<noteq> Throws \<longrightarrow>
        snd (DeviceManager_deleteDevice ds dev r) = snd (ds_deleteDevice ds dev r))"
  by (auto simp: deleteDevice_def DeviceManager_deleteDevice_def Let_def
      split: prod.splits outcome.splits)

theorem C6_deleteDevice_result_witness:
  "fst (deleteDevice (sample_DataStore False) ''d1'' [''d1'', ''d2''] sample_provider)
   \<and> \<not> fst (deleteDevice (sample_DataStore True) ''d1'' [''d1'', ''d2''] sample_provider)
   \<and> fst (snd (deleteDevice (sample_DataStore True) ''d1'' [''d1'', ''d2''] sample_provider)) = [''d2'']
   \<and> fst (DeviceManager_deleteDevice (sample_DataStore True) ''d1'' [''d1'', ''d2''])
   \<and> \<not> fst (DeviceManager_deleteDevice (sample_DataStore True) ''d3'' [''d1'', ''d2''])"
  using C6_deleteDevice_result [of "sample_DataStore False" "''d1''" "[''d1'', ''d2'']" sample_provider]
    C6_deleteDevice_result [of "sample_DataStore True" "''d1''" "[''d1'', ''d2'']" sample_provider]
    C6_deleteDevice_result [of "sample_DataStore True" "''d3''" "[''d1'', ''d2'']" sample_provider]
  by (simp add: sample_DataStore_def)

section \<open>The restore engine's claims\<close>

text \<open>
  C3. The claim: an input that is empty or holds only white space fails at once with
  EmptyBackupError, the store untouched. The guard of the source is \<open>!backupJson\<close>, taken
  before \<open>trim()\<close>: three blanks pass it, are trimmed to the empty text, fail all three
  parse strategies and end with the malformed-backup error. The store is untouched.
\<close>

theorem C3_whitespace_is_malformed:
  "restoreFromBackup no_faults [(''gsm_devices'', ''[]'')] ''   ''
     = (Inl MalformedBackupError, [(''gsm_devices'', ''[]'')])"
  by (simp add: restoreFromBackup_def trim_all_space locate_start_Nil locate_end_Nil
      parse_backup_Nil is_space_def)

text \<open>
  C3, as amended. The empty input fails with EmptyBackupError; an input that is not empty
  and holds only white space fails with MalformedBackupError; both leave the store as it
  was, whatever the store backend does.
\<close>

theorem C3_guard:
  "restoreFromBackup f st [] = (Inl EmptyBackupError, st)
   \<and> (backupJson \<noteq> [] \<and> list_all is_space backupJson \<longrightarrow>
        restoreFromBackup f st backupJson = (Inl MalformedBackupError, st))"
  by (simp add: restoreFromBackup_def trim_all_space locate_start_Nil locate_end_Nil
      parse_backup_Nil)

theorem C3_guard_witness:
  "restoreFromBackup no_faults [(''gsm_devices'', ''[]'')] [] = (Inl EmptyBackupError, [(''gsm_devices'', ''[]'')])
   \<and> list_all is_space [CHR 0x20, CHR 0x0A, CHR 0x09]
   \<and> restoreFromBackup no_faults [(''gsm_devices'', ''[]'')] [CHR 0x20, CHR 0x0A, CHR 0x09]
       = (Inl MalformedBackupError, [(''gsm_devices'', ''[]'')])"
  using C3_guard [of no_faults "[(''gsm_devices'', ''[]'')]" "[CHR 0x20, CHR 0x0A, CHR 0x09]"]
  by (simp add: is_space_def)

text \<open>
  C5. The claim: a top-level \<open>data\<close> field is the key-space only when it is a non-array
  object. The source tests \<open>typeof parsedData.data === 'object'\<close>, which an array passes
  too: for \<open>{"version":1,"data":[7,8]}\<close> the array is taken as the key-space, where the
  claim's rule takes the whole object.
\<close>

theorem C5_data_array_is_used:
  "normalize (JObject [(''version'', JNumber 1), (''data'', JArray [JNumber 7, JNumber 8])])
     = Inr (JArray [JNumber 7, JNumber 8])
   \<and> normalize_spec (JObject [(''version'', JNumber 1), (''data'', JArray [JNumber 7, JNumber 8])])
     = Inr (JObject [(''version'', JNumber 1), (''data'', JArray [JNumber 7, JNumber 8])])"
  by (simp add: normalize_def normalize_spec_def get_data_def truthy_def typeof_object_def
      is_plain_object_def isArray_def)

text \<open>
  C5, as amended. For every parsed payload other than \<open>null\<close>: a top-level \<open>data\<close> field
  that is an object or an array is the key-space; else a non-array object is the
  key-space itself; else an array is wrapped under \<open>gsm_devices\<close>; anything else fails
  with UnsupportedFormatError.
\<close>

theorem C5_normalize:
  "parsedData \<noteq> JNull \<Longrightarrow>
   normalize parsedData =
     (case get_data parsedData of
        Some d \<Rightarrow>
          if is_plain_object d \<or> isArray d then Inr d
          else if is_plain_object parsedData then Inr parsedData
          else if isArray parsedData then Inr (JObject [(''gsm_devices'', parsedData)])
          else Inl UnsupportedFormatError
      | None \<Rightarrow>
          if is_plain_object parsedData then Inr parsedData
          else if isArray parsedData then Inr (JObject [(''gsm_devices'', parsedData)])
          else Inl UnsupportedFormatError)"
  by (cases parsedData)
    (auto simp: normalize_def get_data_def truthy_def typeof_object_def is_plain_object_def
      isArray_def split: option.splits json.splits)


theorem C5_normalize_witness:
  "normalize (JObject [(''version'', JNumber 1), (''data'', JObject [(''k'', JNumber 1)])])
     = Inr (JObject [(''k'', JNumber 1)])
   \<and> normalize (JObject [(''data'', JArray [JNumber 7])]) = Inr (JArray [JNumber 7])
   \<and> normalize (JObject [(''data'', JString ''x'')]) = Inr (JObject [(''data'', JString ''x'')])
   \<and> normalize (JArray [JNumber 7]) = Inr (JObject [(''gsm_devices'', JArray [JNumber 7])])
   \<and> normalize (JNumber 7) = Inl UnsupportedFormatError"
  using C5_normalize [of "JObject [(''version'', JNumber 1), (''data'', JObject [(''k'', JNumber 1)])]"]
    C5_normalize [of "JObject [(''data'', JArray [JNumber 7])]"]
    C5_normalize [of "JObject [(''data'', JString ''x'')]"]
    C5_normalize [of "JArray [JNumber 7]"]
    C5_normalize [of "JNumber 7"]
  by (simp add: get_data_def is_plain_object_def isArray_def)

text \<open>
  C10. In the write phase an entry whose value is \<open>null\<close> is skipped: the loop does on the
  entries what it does on the entries without the \<open>null\<close> ones, so such an entry is neither
  written nor counted. A backup that parses to one or more entries, all \<open>null\<close>, therefore
  fails with the zero-writes error (after the existing keys have been cleared).
\<close>

theorem C10_null_entries_skipped:
  "save_items f entries n st = save_items f (filter (\<lambda>(k, v). v \<noteq> JNull) entries) n st
   \<and> (parse_backup (locate_end (locate_start (trim backupJson))) = Inr parsedData
        \<and> normalize parsedData = Inr dataToStore
        \<and> Object_entries dataToStore = Inr entries
        \<and> entries \<noteq> [] \<and> (\<forall>(k, v) \<in> set entries. v = JNull) \<longrightarrow>
        restoreFromBackup f st backupJson = (Inl RestoreFailedError, clear_existing f st))"
proof (intro conjI impI)
  show "save_items f entries n st = save_items f (filter (\<lambda>(k, v). v \<noteq> JNull) entries) n st"
    by (rule save_items_skips_null)
next
  assume a: "parse_backup (locate_end (locate_start (trim backupJson))) = Inr parsedData
        \<and> normalize parsedData = Inr dataToStore
        \<and> Object_entries dataToStore = Inr entries
        \<and> entries \<noteq> [] \<and> (\<forall>(k, v) \<in> set entries. v = JNull)"
  then have ne: "backupJson \<noteq> []"
    using preprocess_Nil parse_backup_Nil by auto
  from a have "save_items f entries 0 (clear_existing f st) = (0, clear_existing f st)"
    by (simp add: save_items_all_null)
  with a ne show "restoreFromBackup f st backupJson = (Inl RestoreFailedError, clear_existing f st)"
    by (simp add: restoreFromBackup_def Let_def)
qed

lemma parse_backup_null_values: \<open>parse_backup (locate_end (locate_start (trim ''{"a":null,"b":null}'')))
    = Inr (JObject [(''a'', JNull), (''b'', JNull)])\<close>
  by code_simp

theorem C10_null_entries_skipped_witness:
  \<open>restoreFromBackup no_faults [(''gsm_devices'', ''[]'')] ''{"a":null,"b":null}''
     = (Inl RestoreFailedError, [])
   \<and> save_items no_faults [(''a'', JNull), (''b'', JNumber 1)] 0 [] = (1, [(''b'', ''1'')])\<close>
  using C10_null_entries_skipped [where f = no_faults and st = "[(''gsm_devices'', ''[]'')]"
      and entries = "[(''a'', JNull), (''b'', JNull)]" and n = 0
      and backupJson = \<open>''{"a":null,"b":null}''\<close>
      and parsedData = "JObject [(''a'', JNull), (''b'', JNull)]"
      and dataToStore = "JObject [(''a'', JNull), (''b'', JNull)]"]
    C10_null_entries_skipped [where f = no_faults and st = "[]"
      and entries = "[(''a'', JNull), (''b'', JNumber 1)]" and n = 0]
    parse_backup_null_values
  by (simp add: normalize_def get_data_def truthy_def typeof_object_def isArray_def
      Object_entries_def clear_existing_def no_faults_def multiRemove_def setItem_def
      NumberToString_def valueToStore_def)

text \<open>
  C4. The claim: the input is cut at the offset where the brace depth first returns to
  zero, so any balanced object followed by trailing text that is not JSON is restored.
  The source overwrites \<open>lastValidPos\<close> whenever the depth returns to zero, and so keeps
  the last such offset: in \<open>{"a":1} {x}\<close> the first return to zero is at offset 7, the
  last at the end of the text, and nothing is cut. With a nested leading object,
  \<open>{"a":{"b":{"c":1}}} {x}\<close>, the uncut text fails the strict parse, the repair and the
  key extraction, and restore fails.
\<close>

theorem C4_last_not_first:
  \<open>locate_end_spec ''{"a":1} {x}'' = ''{"a":1}''
   \<and> locate_end ''{"a":1} {x}'' = ''{"a":1} {x}''
   \<and> restoreFromBackup no_faults [(''gsm_devices'', ''[]'')] ''{"a":{"b":{"c":1}}} {x}''
       = (Inl MalformedBackupError, [(''gsm_devices'', ''[]'')])\<close>
proof (intro conjI)
  show \<open>locate_end_spec ''{"a":1} {x}'' = ''{"a":1}''\<close> by code_simp
  show \<open>locate_end ''{"a":1} {x}'' = ''{"a":1} {x}''\<close> by code_simp
  show \<open>restoreFromBackup no_faults [(''gsm_devices'', ''[]'')] ''{"a":{"b":{"c":1}}} {x}''
       = (Inl MalformedBackupError, [(''gsm_devices'', ''[]'')])\<close> by code_simp
qed

text \<open>
  C4, as amended. The end-locating stage cuts the input after the last closing brace at
  which the brace depth is zero, and leaves it whole when there is no such brace or that
  brace ends the input. Consequently, for a text that begins with \<open>{"\<close>, ends with \<open>}\<close>
  and has as many opening as closing braces, followed by trailing text without braces,
  the text handed to the parser is exactly the leading text: restore does on the whole
  input what it does on the leading text alone, and uses the strict parse of the leading
  text when it has one. The witness is \<open>{"a":1}\<close>, a line break and \<open>EOF marker\<close>.
\<close>

theorem C4_trailing_text:
  "last_balanced_close s (scan_braces 0 0 0 s)
   \<and> locate_end s =
       (if 0 < scan_braces 0 0 0 s \<and> scan_braces 0 0 0 s < length s
        then take (scan_braces 0 0 0 s) s else s)
   \<and> (prefix [CHR ''{'', CHR 0x22] p \<and> last p = CHR ''}''
        \<and> count_list p (CHR ''{'') = count_list p (CHR ''}'')
        \<and> (\<forall>c \<in> set t. c \<noteq> CHR ''{'' \<and> c \<noteq> CHR ''}'') \<longrightarrow>
        locate_end (locate_start (trim (p @ t))) = p
        \<and> restoreFromBackup f st (p @ t) = restoreFromBackup f st p
        \<and> (\<forall>parsedData. JSON_parse p = Some parsedData \<longrightarrow>
              parse_backup (locate_end (locate_start (trim (p @ t)))) = Inr parsedData))"
proof (intro conjI impI)
  show "last_balanced_close s (scan_braces 0 0 0 s)" by (rule scan_braces_is_last_balanced)
  show "locate_end s =
       (if 0 < scan_braces 0 0 0 s \<and> scan_braces 0 0 0 s < length s
        then take (scan_braces 0 0 0 s) s else s)"
    by (simp add: locate_end_def)
next
  assume a: "prefix [CHR ''{'', CHR 0x22] p \<and> last p = CHR ''}''
        \<and> count_list p (CHR ''{'') = count_list p (CHR ''}'')
        \<and> (\<forall>c \<in> set t. c \<noteq> CHR ''{'' \<and> c \<noteq> CHR ''}'')"
  then have 1: "locate_end (locate_start (trim (p @ t))) = p"
    by (intro preprocess_leading_object) simp_all
  from a have 2: "locate_end (locate_start (trim (p @ []))) = p"
    by (intro preprocess_leading_object) simp_all
  from a have "prefix [CHR ''{'', CHR 0x22] p" by (rule conjunct1)
  then have ne: "p \<noteq> []" by (cases p) simp_all
  show "locate_end (locate_start (trim (p @ t))) = p" by (rule 1)
  show "restoreFromBackup f st (p @ t) = restoreFromBackup f st p"
    using 1 2 ne by (simp add: restoreFromBackup_def)
  show "\<forall>parsedData. JSON_parse p = Some parsedData \<longrightarrow>
          parse_backup (locate_end (locate_start (trim (p @ t)))) = Inr parsedData"
    by (simp add: 1 parse_backup_def)
qed

lemma restore_leading_object:
  \<open>restoreFromBackup no_faults [(''gsm_devices'', ''[]'')] ''{"a":1}'' = (Inr True, [(''a'', ''1'')])\<close>
  by code_simp

theorem C4_trailing_text_witness:
  \<open>restoreFromBackup no_faults [(''gsm_devices'', ''[]'')] (''{"a":1}'' @ [CHR 0x0A] @ ''EOF marker'')
     = (Inr True, [(''a'', ''1'')])
   \<and> locate_end (locate_start (trim (''{"a":1}'' @ [CHR 0x0A] @ ''EOF marker''))) = ''{"a":1}''\<close>
proof -
  have h: \<open>prefix [CHR ''{'', CHR 0x22] ''{"a":1}'' \<and> last ''{"a":1}'' = CHR ''}''
        \<and> count_list ''{"a":1}'' (CHR ''{'') = count_list ''{"a":1}'' (CHR ''}'')
        \<and> (\<forall>c \<in> set ([CHR 0x0A] @ ''EOF marker''). c \<noteq> CHR ''{'' \<and> c \<noteq> CHR ''}'')\<close>
    by simp
  note c = C4_trailing_text [where p = \<open>''{"a":1}''\<close> and t = "[CHR 0x0A] @ ''EOF marker''"
      and f = no_faults and st = "[(''gsm_devices'', ''[]'')]" and s = "[]",
      THEN conjunct2, THEN conjunct2, THEN mp, OF h]
  from c [THEN conjunct1] c [THEN conjunct2, THEN conjunct1] restore_leading_object
  show ?thesis by (simp only: simp_thms)
qed








end
